theory Spec2Isabelle
  imports Complex_Main
begin

section \<open>Raw rows\<close>

text \<open>
  \<^verbatim>\<open>d3.csv\<close> yields one object per record, with one field for each column of the
  header. A cell that is empty, or that a short record lacks, reads as the empty text
  \<open>Some []\<close>; a field whose column the table does not have reads as \<^verbatim>\<open>undefined\<close>,
  modelled by \<open>None\<close>. A string is a list of 8-bit code units.
\<close>

record RawRow =
  genre :: "string option"
  age_category :: "string option"
  publicationYear :: "string option"
  bestseller_status :: "string option"
  adapted_to_movie :: "string option"

section \<open>Grouping: d3.group, d3.rollup, d3.rollups\<close>

text \<open>
  \<^verbatim>\<open>d3.group\<close> walks the values once and keeps an insertion-ordered map from key to the
  values seen with it: a value whose key is already present is pushed onto that key's
  array, any other key is appended with a fresh array. The map is an association list
  here, since the order of its entries is the order of the emitted datums. Keys are
  compared as a JavaScript \<^verbatim>\<open>Map\<close> compares them, which is HOL equality on the models of
  \<^verbatim>\<open>undefined\<close>, strings and numbers below (\<^verbatim>\<open>NaN\<close> is one key).
\<close>

fun add_to_group :: "'k \<Rightarrow> 'a \<Rightarrow> ('k \<times> 'a list) list \<Rightarrow> ('k \<times> 'a list) list" where
  "add_to_group k v [] = [(k, [v])]"
| "add_to_group k v ((k', vs) # gs) =
     (if k' = k then (k', vs @ [v]) # gs else (k', vs) # add_to_group k v gs)"

definition group :: "('a \<Rightarrow> 'k) \<Rightarrow> 'a list \<Rightarrow> ('k \<times> 'a list) list" where
  "group key values = foldl (\<lambda>groups v. add_to_group (key v) v groups) [] values"

text \<open>\<^verbatim>\<open>d3.rollup(values, reduce, key)\<close>: every group replaced by its reduction.\<close>

definition rollup :: "('a list \<Rightarrow> 'r) \<Rightarrow> ('a \<Rightarrow> 'k) \<Rightarrow> 'a list \<Rightarrow> ('k \<times> 'r) list" where
  "rollup reduce key values = map (\<lambda>(k, vs). (k, reduce vs)) (group key values)"

text \<open>
  \<^verbatim>\<open>d3.rollup(values, reduce, key1, key2)\<close> and \<^verbatim>\<open>d3.rollups\<close> with two keys: the values
  of each outer group are grouped again by the second key and reduced.
\<close>

definition rollup2 ::
  "('a list \<Rightarrow> 'r) \<Rightarrow> ('a \<Rightarrow> 'k) \<Rightarrow> ('a \<Rightarrow> 'j) \<Rightarrow> 'a list \<Rightarrow> ('k \<times> ('j \<times> 'r) list) list" where
  "rollup2 reduce key1 key2 values =
     map (\<lambda>(k, vs). (k, rollup reduce key2 vs)) (group key1 values)"

section \<open>Bar reducer (StackedBarChart.loadData)\<close>

record StackedBar =
  category :: string
  stack :: string
  bar_value :: nat

text \<open>The operator \<^verbatim>\<open>??\<close>: the right operand replaces \<^verbatim>\<open>undefined\<close> only.\<close>

definition nullish :: "string option \<Rightarrow> string \<Rightarrow> string" where
  "nullish x d = (case x of None \<Rightarrow> d | Some s \<Rightarrow> s)"

definition bar_loadData :: "RawRow list \<Rightarrow> StackedBar list" where
  "bar_loadData rawData =
     (let grouped = rollup2 length genre age_category rawData
      in concat (map (\<lambda>(g, m).
           map (\<lambda>(a, c). \<lparr>category = nullish g ''Unknown'',
                           stack = nullish a ''Unknown'',
                           bar_value = c\<rparr>) m) grouped))"


definition book :: "string \<Rightarrow> string \<Rightarrow> RawRow" where
  "book g a = \<lparr>genre = Some g, age_category = Some a, publicationYear = None,
               bestseller_status = None, adapted_to_movie = None\<rparr>"

section \<open>Numbers and numeric coercion\<close>

text \<open>
  A JavaScript number is a finite value, an infinity or \<^verbatim>\<open>NaN\<close>. A finite value is
  carried exactly, as a rational: the rounding to binary64, the overflow to an
  infinity and the sign of zero are not represented, so the model agrees with the
  program where the values involved are exactly representable (every integer below
  \<open>2\<^sup>5\<^sup>3\<close> in magnitude is). Whether a text coerces to \<^verbatim>\<open>NaN\<close> does not depend on
  rounding or overflow.
\<close>

datatype jsnum = Num rat | PosInf | NegInf | NaN

text \<open>White space and line terminators among the 8-bit code units.\<close>

definition is_ws :: "char \<Rightarrow> bool" where
  "is_ws c \<longleftrightarrow> c \<in> set [CHR 0x09, CHR 0x0A, CHR 0x0B, CHR 0x0C, CHR 0x0D, CHR 0x20, CHR 0xA0]"

definition trim :: "string \<Rightarrow> string" where
  "trim s = rev (dropWhile is_ws (rev (dropWhile is_ws s)))"

text \<open>The value of a digit in radix up to 16, and the numerals built from digits.\<close>

definition digit_of :: "char \<Rightarrow> nat option" where
  "digit_of c =
     (let n = of_char c :: nat in
      if 48 \<le> n \<and> n \<le> 57 then Some (n - 48)
      else if 97 \<le> n \<and> n \<le> 102 then Some (n - 87)
      else if 65 \<le> n \<and> n \<le> 70 then Some (n - 55)
      else None)"

definition is_digit :: "nat \<Rightarrow> char \<Rightarrow> bool" where
  "is_digit radix c = (case digit_of c of None \<Rightarrow> False | Some d \<Rightarrow> d < radix)"

definition digits_value :: "nat \<Rightarrow> string \<Rightarrow> nat" where
  "digits_value radix ds = foldl (\<lambda>n c. radix * n + (case digit_of c of None \<Rightarrow> 0 | Some d \<Rightarrow> d)) 0 ds"

definition radix_literal :: "nat \<Rightarrow> string \<Rightarrow> jsnum" where
  "radix_literal radix ds =
     (if ds \<noteq> [] \<and> list_all (is_digit radix) ds then Num (of_nat (digits_value radix ds)) else NaN)"

text \<open>The value \<open>m \<times> 10\<^sup>e\<close> of a decimal literal with digits \<open>m\<close> and exponent \<open>e\<close>.\<close>

definition scale10 :: "nat \<Rightarrow> int \<Rightarrow> rat" where
  "scale10 m e = (if 0 \<le> e then of_nat m * 10 ^ nat e else of_nat m / 10 ^ nat (- e))"

text \<open>
  What follows the digits of a decimal literal: nothing, or an exponent indicator
  with a signed run of digits. Anything else makes the literal ill-formed.
\<close>

definition exponent_part :: "string \<Rightarrow> int option" where
  "exponent_part s =
     (case s of
        [] \<Rightarrow> Some 0
      | c # t \<Rightarrow>
          if c = CHR ''e'' \<or> c = CHR ''E'' then
            (let (neg, ds) = (case t of
                                [] \<Rightarrow> (False, [])
                              | d # u \<Rightarrow> if d = CHR ''-'' then (True, u)
                                          else if d = CHR ''+'' then (False, u) else (False, t))
             in if ds \<noteq> [] \<and> list_all (is_digit 10) ds
                then Some (if neg then - int (digits_value 10 ds) else int (digits_value 10 ds))
                else None)
          else None)"

text \<open>
  \<^verbatim>\<open>StrUnsignedDecimalLiteral\<close>: \<^verbatim>\<open>Infinity\<close>, or digits with an optional fraction and
  exponent, with at least one digit before or after the point.
\<close>

definition unsigned_decimal :: "string \<Rightarrow> jsnum" where
  "unsigned_decimal s =
     (if s = ''Infinity'' then PosInf
      else
        let ip = takeWhile (is_digit 10) s;
            r = dropWhile (is_digit 10) s;
            fp = (case r of [] \<Rightarrow> [] | c # t \<Rightarrow> if c = CHR ''.'' then takeWhile (is_digit 10) t else []);
            r' = (case r of [] \<Rightarrow> [] | c # t \<Rightarrow> if c = CHR ''.'' then dropWhile (is_digit 10) t else r)
        in if ip = [] \<and> fp = [] then NaN
           else (case exponent_part r' of
                   None \<Rightarrow> NaN
                 | Some e \<Rightarrow> Num (scale10 (digits_value 10 (ip @ fp)) (e - int (length fp)))))"

definition js_neg :: "jsnum \<Rightarrow> jsnum" where
  "js_neg x = (case x of Num q \<Rightarrow> Num (- q) | PosInf \<Rightarrow> NegInf | NegInf \<Rightarrow> PosInf | NaN \<Rightarrow> NaN)"

text \<open>
  \<^verbatim>\<open>StringToNumber\<close>: the trimmed text is empty (zero), a signed decimal literal, or an
  unsigned literal in radix 16, 8 or 2; every other text is \<^verbatim>\<open>NaN\<close>.
\<close>

definition string_to_number :: "string \<Rightarrow> jsnum" where
  "string_to_number s =
     (case trim s of
        [] \<Rightarrow> Num 0
      | c # t \<Rightarrow>
          if c = CHR ''+'' then unsigned_decimal t
          else if c = CHR ''-'' then js_neg (unsigned_decimal t)
          else if c = CHR ''0'' \<and> t \<noteq> [] \<and> hd t \<in> set ''xX'' then radix_literal 16 (tl t)
          else if c = CHR ''0'' \<and> t \<noteq> [] \<and> hd t \<in> set ''oO'' then radix_literal 8 (tl t)
          else if c = CHR ''0'' \<and> t \<noteq> [] \<and> hd t \<in> set ''bB'' then radix_literal 2 (tl t)
          else unsigned_decimal (c # t))"

text \<open>Unary plus on a field: \<^verbatim>\<open>+undefined\<close> is \<^verbatim>\<open>NaN\<close>.\<close>

definition to_number :: "string option \<Rightarrow> jsnum" where
  "to_number x = (case x of None \<Rightarrow> NaN | Some s \<Rightarrow> string_to_number s)"

text \<open>Division by ten, \<^verbatim>\<open>Math.floor\<close> and multiplication by ten.\<close>

definition js_div10 :: "jsnum \<Rightarrow> jsnum" where
  "js_div10 x = (case x of Num q \<Rightarrow> Num (q / 10) | _ \<Rightarrow> x)"

definition js_floor :: "jsnum \<Rightarrow> jsnum" where
  "js_floor x = (case x of Num q \<Rightarrow> Num (of_int \<lfloor>q\<rfloor>) | _ \<Rightarrow> x)"

definition js_mul10 :: "jsnum \<Rightarrow> jsnum" where
  "js_mul10 x = (case x of Num q \<Rightarrow> Num (q * 10) | _ \<Rightarrow> x)"

section \<open>Most frequent genres\<close>

text \<open>
  \<^verbatim>\<open>Array.from(counts.entries()).sort((a, b) => b[1] - a[1]).slice(0, n).map(d => d[0])\<close>:
  the entries in descending order of count, entries of equal count in their order of
  insertion (the sort is stable, as \<open>sort_key\<close> is), cut to the first \<open>n\<close> keys.
\<close>

definition top_keys :: "nat \<Rightarrow> ('k \<times> nat) list \<Rightarrow> 'k list" where
  "top_keys n entries = map fst (take n (sort_key (\<lambda>e. - int (snd e)) entries))"

definition topGenres :: "nat \<Rightarrow> RawRow list \<Rightarrow> string option list" where
  "topGenres n rawData = top_keys n (rollup length genre rawData)"

text \<open>The number of rows of a genre.\<close>

definition genre_count :: "RawRow list \<Rightarrow> string option \<Rightarrow> nat" where
  "genre_count rawData g = length (filter (\<lambda>r. genre r = g) rawData)"

section \<open>Heatmap reducer (GenreDecadeHeatmap.loadData)\<close>

record HeatmapData =
  hm_genre :: "string option"
  hm_decade :: jsnum
  hm_count :: nat

text \<open>The two grouping keys: the genre or the bucket "Other", and the decade.\<close>

definition heat_genre :: "string option list \<Rightarrow> RawRow \<Rightarrow> string option" where
  "heat_genre tg d = (if genre d \<in> set tg then genre d else Some ''Other'')"

definition decade_of :: "RawRow \<Rightarrow> jsnum" where
  "decade_of d = js_mul10 (js_floor (js_div10 (to_number (publicationYear d))))"

definition heatmap_loadData :: "RawRow list \<Rightarrow> HeatmapData list" where
  "heatmap_loadData rawData =
     (let tg = topGenres 20 rawData;
          grouped = rollup2 length (heat_genre tg) decade_of rawData
      in concat (map (\<lambda>(g, decades).
           map (\<lambda>(d, c). \<lparr>hm_genre = g, hm_decade = d, hm_count = c\<rparr>) decades) grouped))"

definition dated :: "string \<Rightarrow> string \<Rightarrow> RawRow" where
  "dated g y = \<lparr>genre = Some g, age_category = Some ''Adult'', publicationYear = Some y,
                bestseller_status = Some ''false'', adapted_to_movie = Some ''false''\<rparr>"

text \<open>Twenty-one genres: "u" has two books, each of "a" to "t" has one.\<close>

definition shelf :: "RawRow list" where
  "shelf = map (\<lambda>c. dated [c] ''2001'') ''abcdefghijklmnopqrstu'' @ [dated ''u'' ''1994'']"

section \<open>Flow reducer (SankeyChart.loadData)\<close>

record MyNode =
  name :: "string option"
  layer :: nat

record MyLink =
  source :: "string option"
  target :: "string option"
  link_value :: nat

text \<open>\<^verbatim>\<open>String(x)\<close> and template interpolation: \<^verbatim>\<open>undefined\<close> prints as its name.\<close>

definition js_String :: "string option \<Rightarrow> string" where
  "js_String x = (case x of None \<Rightarrow> ''undefined'' | Some s \<Rightarrow> s)"

text \<open>
  \<^verbatim>\<open>toLowerCase\<close> on 8-bit code units: the capitals A to Z and the capitals of the
  upper half (0xC0 to 0xDE, but for the multiplication sign 0xD7) move up by 32.
\<close>

definition to_lower_char :: "char \<Rightarrow> char" where
  "to_lower_char c =
     (let n = of_char c :: nat
      in if (65 \<le> n \<and> n \<le> 90) \<or> (192 \<le> n \<and> n \<le> 222 \<and> n \<noteq> 215) then char_of (n + 32) else c)"

definition toLowerCase :: "string \<Rightarrow> string" where
  "toLowerCase s = map to_lower_char s"

definition isBestseller :: "RawRow \<Rightarrow> bool" where
  "isBestseller d \<longleftrightarrow> toLowerCase (js_String (bestseller_status d)) = ''true''"

definition isMovie :: "RawRow \<Rightarrow> bool" where
  "isMovie d \<longleftrightarrow> toLowerCase (js_String (adapted_to_movie d)) = ''true''"

definition bestsellerStatus :: "RawRow \<Rightarrow> string" where
  "bestsellerStatus d = (if isBestseller d then ''Bestseller'' else ''Not Bestseller'')"

definition movieStatus :: "RawRow \<Rightarrow> string" where
  "movieStatus d = (if isMovie d then ''Adapted To Movie'' else ''Not Adapted To Movie'')"

text \<open>
  The spec's words for the test: the field is present and spells "true" in any mix of
  upper and lower case.
\<close>

definition equals_true_ci :: "string option \<Rightarrow> bool" where
  "equals_true_ci x =
     (case x of
        Some [a, b, c, d] \<Rightarrow>
          a \<in> set ''tT'' \<and> b \<in> set ''rR'' \<and> c \<in> set ''uU'' \<and> d \<in> set ''eE''
      | _ \<Rightarrow> False)"

text \<open>
  \<^verbatim>\<open>nodeMap\<close> and \<^verbatim>\<open>linkMap\<close> are insertion-ordered maps. \<^verbatim>\<open>addNode\<close> keeps the first
  node stored under a name; \<^verbatim>\<open>addLink\<close> counts under the key made of the two names
  around the separator \<^verbatim>\<open>|||\<close>.
\<close>

definition addNode ::
  "string option \<Rightarrow> nat \<Rightarrow> (string option \<times> MyNode) list \<Rightarrow> (string option \<times> MyNode) list" where
  "addNode nm l nodeMap =
     (if nm \<in> fst ` set nodeMap then nodeMap else nodeMap @ [(nm, \<lparr>name = nm, layer = l\<rparr>)])"

text \<open>\<^verbatim>\<open>Map.set\<close>: the value of a present key is replaced in place, a new key is appended.\<close>

fun map_set :: "'k \<Rightarrow> 'v \<Rightarrow> ('k \<times> 'v) list \<Rightarrow> ('k \<times> 'v) list" where
  "map_set k v [] = [(k, v)]"
| "map_set k v ((k', v') # m) = (if k' = k then (k', v) # m else (k', v') # map_set k v m)"

definition link_key :: "string option \<Rightarrow> string option \<Rightarrow> string" where
  "link_key s t = js_String s @ ''|||'' @ js_String t"

definition addLink :: "string option \<Rightarrow> string option \<Rightarrow> (string \<times> nat) list \<Rightarrow> (string \<times> nat) list" where
  "addLink s t linkMap =
     (let key = link_key s t
      in map_set key ((case map_of linkMap key of None \<Rightarrow> 0 | Some n \<Rightarrow> n) + 1) linkMap)"

text \<open>
  \<^verbatim>\<open>key.split('|||')\<close>: the text is cut at every occurrence of the separator, found
  from the left; \<open>cur\<close> holds the piece being read, reversed.
\<close>

function js_split :: "string \<Rightarrow> string \<Rightarrow> string list" where
  "js_split cur [] = [rev cur]"
| "js_split cur (c # cs) =
     (if take 3 (c # cs) = ''|||'' then rev cur # js_split [] (drop 2 cs)
      else js_split (c # cur) cs)"
  by pat_completeness auto
termination
  by (relation "measure (\<lambda>(cur, s). length s)") auto

text \<open>An array element, \<^verbatim>\<open>undefined\<close> beyond the end.\<close>

definition element :: "string list \<Rightarrow> nat \<Rightarrow> string option" where
  "element xs i = (if i < length xs then Some (xs ! i) else None)"

definition make_link :: "string \<times> nat \<Rightarrow> MyLink" where
  "make_link e =
     (let parts = js_split [] (fst e)
      in \<lparr>source = element parts 0, target = element parts 1, link_value = snd e\<rparr>)"

text \<open>The body of \<^verbatim>\<open>rawData.forEach\<close>, on the pair of maps.\<close>

definition flow_step ::
  "string option list \<Rightarrow> (string option \<times> MyNode) list \<times> (string \<times> nat) list \<Rightarrow> RawRow
   \<Rightarrow> (string option \<times> MyNode) list \<times> (string \<times> nat) list" where
  "flow_step tg st d =
     (if genre d \<notin> set tg then st
      else
        let nodeMap = fst st; linkMap = snd st;
            age = age_category d;
            nodeMap = addNode (genre d) 0 nodeMap;
            nodeMap = addNode age 1 nodeMap;
            nodeMap = addNode (Some (movieStatus d)) 2 nodeMap;
            nodeMap = addNode (Some (bestsellerStatus d)) 3 nodeMap;
            linkMap = addLink (genre d) age linkMap;
            linkMap = addLink age (Some (movieStatus d)) linkMap;
            linkMap = addLink (Some (movieStatus d)) (Some (bestsellerStatus d)) linkMap
        in (nodeMap, linkMap))"

text \<open>
  The loader returns early on an empty table, leaving the node and link state as it
  was (\<open>None\<close>); otherwise it stores the nodes in order of first insertion and one link
  per key of \<^verbatim>\<open>linkMap\<close>, its two names read back from the key.
\<close>

definition sankey_loadData :: "RawRow list \<Rightarrow> (MyNode list \<times> MyLink list) option" where
  "sankey_loadData rawData =
     (if rawData = [] then None
      else
        let tg = topGenres 10 rawData;
            st = foldl (flow_step tg) ([], []) rawData
        in Some (map snd (fst st), map make_link (snd st)))"

text \<open>
  The three transitions a row contributes, as pairs of names; the rows that pass the
  top-10 test; texts free of the separator's character; the key of a pair; and the
  counting step of \<^verbatim>\<open>addLink\<close> on a key.
\<close>

definition transitions :: "RawRow \<Rightarrow> (string \<times> string) list" where
  "transitions d =
     [(js_String (genre d), js_String (age_category d)),
      (js_String (age_category d), movieStatus d),
      (movieStatus d, bestsellerStatus d)]"

definition surviving :: "RawRow list \<Rightarrow> RawRow list" where
  "surviving rawData = filter (\<lambda>d. genre d \<in> set (topGenres 10 rawData)) rawData"

definition pipe_free :: "string \<Rightarrow> bool" where
  "pipe_free s \<longleftrightarrow> CHR ''|'' \<notin> set s"

definition pair_key :: "string \<times> string \<Rightarrow> string" where
  "pair_key p = fst p @ ''|||'' @ snd p"

definition bump :: "'k \<Rightarrow> ('k \<times> nat) list \<Rightarrow> ('k \<times> nat) list" where
  "bump k m = map_set k ((case map_of m k of None \<Rightarrow> 0 | Some n \<Rightarrow> n) + 1) m"

text \<open>The name a row passes to \<^verbatim>\<open>addNode\<close> for a layer.\<close>

definition label_at :: "nat \<Rightarrow> RawRow \<Rightarrow> string option" where
  "label_at l d =
     (if l = 0 then genre d else if l = 1 then age_category d
      else if l = 2 then Some (movieStatus d) else Some (bestsellerStatus d))"

text \<open>A book with no bestseller field, and the movie field in mixed case.\<close>

definition unrated :: RawRow where
  "unrated = \<lparr>genre = Some ''Fiction'', age_category = Some ''Adult'', publicationYear = Some ''1999'',
             bestseller_status = None, adapted_to_movie = Some ''TrUe''\<rparr>"

definition swap :: "string \<Rightarrow> string \<Rightarrow> string \<Rightarrow> string \<Rightarrow> RawRow" where
  "swap g a m b = \<lparr>genre = Some g, age_category = Some a, publicationYear = Some ''2001'',
                   bestseller_status = Some b, adapted_to_movie = Some m\<rparr>"

section \<open>Viewport size and the draw effects\<close>

record ComponentSize =
  width :: jsnum
  height :: jsnum

text \<open>Truthiness of a number: \<^verbatim>\<open>!x\<close> holds of zero and of \<^verbatim>\<open>NaN\<close>.\<close>

definition falsy :: "jsnum \<Rightarrow> bool" where
  "falsy x \<longleftrightarrow> x = Num 0 \<or> x = NaN"

text \<open>
  Each chart redraws in an effect that runs when its data or its size changes. The
  content of the chart's drawing surface is a list of marks of any kind; \<open>drawChart\<close>
  is the chart's drawing procedure, which appends its marks to the content it is given.
  An effect that returns early leaves the surface as it is; otherwise every child of
  the surface is removed and the chart is drawn. The size is written \<open>sz\<close>.
\<close>

definition bar_draw_effect ::
  "(StackedBar list \<Rightarrow> ComponentSize \<Rightarrow> 'm list \<Rightarrow> 'm list)
   \<Rightarrow> StackedBar list \<Rightarrow> ComponentSize \<Rightarrow> 'm list \<Rightarrow> 'm list" where
  "bar_draw_effect drawChart bars sz svg =
     (if bars = [] then svg
      else if width sz = Num 0 \<or> height sz = Num 0 then svg
      else drawChart bars sz [])"

definition heatmap_draw_effect ::
  "(HeatmapData list \<Rightarrow> ComponentSize \<Rightarrow> 'm list \<Rightarrow> 'm list)
   \<Rightarrow> HeatmapData list \<Rightarrow> ComponentSize \<Rightarrow> 'm list \<Rightarrow> 'm list" where
  "heatmap_draw_effect drawChart data sz svg =
     (if data = [] \<or> width sz = Num 0 \<or> height sz = Num 0 then svg
      else drawChart data sz [])"

definition sankey_draw_effect ::
  "(MyNode list \<Rightarrow> MyLink list \<Rightarrow> ComponentSize \<Rightarrow> 'm list \<Rightarrow> 'm list)
   \<Rightarrow> MyNode list \<Rightarrow> MyLink list \<Rightarrow> ComponentSize \<Rightarrow> 'm list \<Rightarrow> 'm list" where
  "sankey_draw_effect draw nodeData linkData sz svg =
     (if length nodeData = 0 \<or> length linkData = 0 then svg
      else if falsy (width sz) \<or> falsy (height sz) then svg
      else draw nodeData linkData sz [])"

text \<open>A drawing procedure for the examples: a title and one mark per datum.\<close>

definition sketch :: "'d list \<Rightarrow> ComponentSize \<Rightarrow> string list \<Rightarrow> string list" where
  "sketch ds sz svg = svg @ ''title'' # map (\<lambda>d. ''mark'') ds"

definition sketch2 :: "'n list \<Rightarrow> 'l list \<Rightarrow> ComponentSize \<Rightarrow> string list \<Rightarrow> string list" where
  "sketch2 ns ls sz svg = svg @ ''title'' # map (\<lambda>d. ''node'') ns @ map (\<lambda>d. ''link'') ls"

section \<open>Resize notifications\<close>

text \<open>
  Modelled from the spec: the debounce of \<^verbatim>\<open>useDebounceCallback\<close>, a hook of the package
  usehooks-ts that is not among the sources. Time is counted in milliseconds. A call
  replaces the pending measurement and restarts the interval; when the interval has
  run out with no further call, the pending measurement is passed on. \<open>published\<close>
  lists the calls passed on, each with its time.
\<close>

record 'a debouncer =
  pending :: "(nat \<times> 'a) option"
  published :: "(nat \<times> 'a) list"

definition fire :: "nat \<Rightarrow> 'a debouncer \<Rightarrow> 'a debouncer" where
  "fire now st =
     (case pending st of
        None \<Rightarrow> st
      | Some (due, a) \<Rightarrow>
          if due \<le> now then \<lparr>pending = None, published = published st @ [(due, a)]\<rparr> else st)"

definition debounced_call :: "nat \<Rightarrow> nat \<Rightarrow> 'a \<Rightarrow> 'a debouncer \<Rightarrow> 'a debouncer" where
  "debounced_call wait now a st = (fire now st)\<lparr>pending := Some (now + wait, a)\<rparr>"

text \<open>The calls of a whole trace, and the timer left pending at its end run out.\<close>

definition flush :: "'a debouncer \<Rightarrow> (nat \<times> 'a) list" where
  "flush st = (case pending st of None \<Rightarrow> published st | Some e \<Rightarrow> published st @ [e])"

definition debounce :: "nat \<Rightarrow> (nat \<times> 'a) list \<Rightarrow> (nat \<times> 'a) list" where
  "debounce wait calls =
     flush (foldl (\<lambda>st (now, a). debounced_call wait now a st)
              \<lparr>pending = None, published = []\<rparr> calls)"

text \<open>
  A trace of layout changes of a chart's container: the time of each change and the
  size measured. The stacked bar chart and the heatmap hand every measurement to
  \<^verbatim>\<open>onResize\<close>, which is \<^verbatim>\<open>setSize\<close> behind a debounce of 200 ms. The result lists the
  calls of \<^verbatim>\<open>setSize\<close>.
\<close>

definition bar_resize_updates :: "(nat \<times> ComponentSize) list \<Rightarrow> (nat \<times> ComponentSize) list" where
  "bar_resize_updates changes = debounce 200 changes"

definition heatmap_resize_updates :: "(nat \<times> ComponentSize) list \<Rightarrow> (nat \<times> ComponentSize) list" where
  "heatmap_resize_updates changes = debounce 200 changes"

text \<open>
  The Sankey chart has its own \<^verbatim>\<open>ResizeObserver\<close>: the callback walks the entries and
  calls \<^verbatim>\<open>setSize\<close> at once for each entry that has a content rectangle.
\<close>

record ResizeEntry =
  contentRect :: "ComponentSize option"

definition sankey_observer :: "nat \<Rightarrow> ResizeEntry list \<Rightarrow> (nat \<times> ComponentSize) list" where
  "sankey_observer now entries =
     concat (map (\<lambda>entry. case contentRect entry of
                              None \<Rightarrow> []
                            | Some r \<Rightarrow> [(now, \<lparr>width = width r, height = height r\<rparr>)]) entries)"

definition sankey_resize_updates :: "(nat \<times> ComponentSize) list \<Rightarrow> (nat \<times> ComponentSize) list" where
  "sankey_resize_updates changes =
     concat (map (\<lambda>(now, r). sankey_observer now [\<lparr>contentRect = Some r\<rparr>]) changes)"

text \<open>The spec's burst: every change comes less than the interval after the one before.\<close>

fun burst :: "nat \<Rightarrow> (nat \<times> 'a) list \<Rightarrow> bool" where
  "burst wait [] = True"
| "burst wait [c] = True"
| "burst wait (c # c' # cs) = (fst c \<le> fst c' \<and> fst c' < fst c + wait \<and> burst wait (c' # cs))"

definition px :: "nat \<Rightarrow> nat \<Rightarrow> ComponentSize" where
  "px w h = \<lparr>width = Num (of_nat w), height = Num (of_nat h)\<rparr>"

section \<open>Properties of grouping\<close>

lemma group_snoc: "group key (xs @ [x]) = add_to_group (key x) x (group key xs)"
  by (simp add: group_def)

lemma add_to_group_keys:
  "fst ` set (add_to_group k v gs) = insert k (fst ` set gs)"
proof (induction gs)
  case Nil show ?case by simp
next
  case (Cons g gs)
  obtain k' vs where g: "g = (k', vs)" by (cases g)
  show ?case using Cons by (cases "k' = k") (auto simp: g)
qed

lemma group_Nil: "group key [] = []"
  by (simp add: group_def)
lemma add_to_group_map_of:
  "map_of (add_to_group k v gs) k' =
     (if k' = k then Some (case map_of gs k of None \<Rightarrow> [v] | Some vs \<Rightarrow> vs @ [v])
      else map_of gs k')"
  by (induction gs) auto

lemma group_map_of:
  "map_of (group key xs) k =
     (if k \<in> key ` set xs then Some (filter (\<lambda>x. key x = k) xs) else None)"
proof (induction xs rule: rev_induct)
  case Nil
  show ?case by (simp add: group_Nil)
next
  case (snoc x xs)
  show ?case
  proof (cases "key x = k")
    case True
    show ?thesis
    proof (cases "k \<in> key ` set xs")
      case True
      with \<open>key x = k\<close> snoc show ?thesis by (simp add: group_snoc add_to_group_map_of)
    next
      case False
      then have "filter (\<lambda>x. key x = k) xs = []" by (auto simp: filter_empty_conv)
      with False \<open>key x = k\<close> snoc show ?thesis by (simp add: group_snoc add_to_group_map_of)
    qed
  next
    case False
    then show ?thesis
      using snoc by (auto simp: group_snoc add_to_group_map_of)
  qed
qed
lemma add_to_group_distinct:
  "distinct (map fst gs) \<Longrightarrow> distinct (map fst (add_to_group k v gs))"
  by (induction gs) (auto simp: add_to_group_keys)
lemma group_distinct: "distinct (map fst (group key xs))"
  by (induction xs rule: rev_induct) (simp_all add: group_Nil group_snoc add_to_group_distinct)
lemma group_mem:
  "(k, vs) \<in> set (group key xs) \<longleftrightarrow> k \<in> key ` set xs \<and> vs = filter (\<lambda>x. key x = k) xs"
proof -
  have "(k, vs) \<in> set (group key xs) \<longleftrightarrow> map_of (group key xs) k = Some vs"
    using group_distinct [of key xs] by simp
  also have "\<dots> \<longleftrightarrow> k \<in> key ` set xs \<and> vs = filter (\<lambda>x. key x = k) xs"
    unfolding group_map_of by auto
  finally show ?thesis .
qed

lemma rollup_mem:
  "(k, c) \<in> set (rollup reduce key xs)
   \<longleftrightarrow> k \<in> key ` set xs \<and> c = reduce (filter (\<lambda>x. key x = k) xs)"
proof -
  have "(k, c) \<in> set (rollup reduce key xs) \<longleftrightarrow> (\<exists>vs. (k, vs) \<in> set (group key xs) \<and> c = reduce vs)"
    by (force simp: rollup_def)
  then show ?thesis by (auto simp: group_mem)
qed



lemma group_keys: "fst ` set (group key xs) = key ` set xs"
  by (induction xs rule: rev_induct) (auto simp: group_Nil group_snoc add_to_group_keys)

lemma rollup_keys: "map fst (rollup reduce key xs) = map fst (group key xs)"
  by (simp add: rollup_def case_prod_unfold comp_def)


lemma rollup2_mem:
  "(g, m) \<in> set (rollup2 reduce key1 key2 xs)
   \<longleftrightarrow> g \<in> key1 ` set xs \<and> m = rollup reduce key2 (filter (\<lambda>x. key1 x = g) xs)"
proof -
  have "(g, m) \<in> set (rollup2 reduce key1 key2 xs)
        \<longleftrightarrow> (\<exists>vs. (g, vs) \<in> set (group key1 xs) \<and> m = rollup reduce key2 vs)"
    by (force simp: rollup2_def)
  then show ?thesis by (auto simp: group_mem)
qed

lemma rollup2_flat_set:
  "set (concat (map (\<lambda>(g, m). map (\<lambda>(a, c). mk g a c) m) (rollup2 length key1 key2 xs)))
   = (\<lambda>r. mk (key1 r) (key2 r) (length (filter (\<lambda>x. key1 x = key1 r \<and> key2 x = key2 r) xs))) ` set xs"
  (is "?L = ?R")
proof (intro set_eqI iffI)
  fix d assume "d \<in> ?L"
  then obtain g m a c where gm: "(g, m) \<in> set (rollup2 length key1 key2 xs)"
    and ac: "(a, c) \<in> set m" and d: "d = mk g a c"
    by auto
  from gm have m: "m = rollup length key2 (filter (\<lambda>x. key1 x = g) xs)"
    by (simp add: rollup2_mem)
  from ac obtain r where r: "r \<in> set xs" "key1 r = g" "key2 r = a"
    and c: "c = length (filter (\<lambda>x. key2 x = a) (filter (\<lambda>x. key1 x = g) xs))"
    unfolding m rollup_mem by auto
  have "c = length (filter (\<lambda>x. key1 x = key1 r \<and> key2 x = key2 r) xs)"
    using r c by (simp add: conj_commute)
  with r d show "d \<in> ?R" by auto
next
  fix d assume "d \<in> ?R"
  then obtain r where r: "r \<in> set xs"
    and d: "d = mk (key1 r) (key2 r) (length (filter (\<lambda>x. key1 x = key1 r \<and> key2 x = key2 r) xs))"
    by auto
  let ?vs = "filter (\<lambda>x. key1 x = key1 r) xs"
  have gm: "(key1 r, rollup length key2 ?vs) \<in> set (rollup2 length key1 key2 xs)"
    using r by (simp add: rollup2_mem)
  have "r \<in> set ?vs" using r by simp
  then have "(key2 r, length (filter (\<lambda>x. key2 x = key2 r) ?vs)) \<in> set (rollup length key2 ?vs)"
    by (simp add: rollup_mem)
  moreover have "filter (\<lambda>x. key2 x = key2 r) ?vs
      = filter (\<lambda>x. key1 x = key1 r \<and> key2 x = key2 r) xs"
    by (simp add: conj_commute)
  ultimately have ac: "(key2 r, length (filter (\<lambda>x. key1 x = key1 r \<and> key2 x = key2 r) xs))
      \<in> set (rollup length key2 ?vs)"
    by simp
  show "d \<in> ?L"
    unfolding d using gm ac by force
qed

section \<open>Bar reducer: every row is counted once\<close>


lemma bar_loadData_set:
  "set (bar_loadData rawData)
   = (\<lambda>r. \<lparr>category = nullish (genre r) ''Unknown'', stack = nullish (age_category r) ''Unknown'',
            bar_value = length (filter (\<lambda>x. genre x = genre r \<and> age_category x = age_category r) rawData)\<rparr>)
     ` set rawData"
  unfolding bar_loadData_def Let_def
  by (rule rollup2_flat_set [where mk = "\<lambda>g a c. \<lparr>category = nullish g ''Unknown'', stack = nullish a ''Unknown'', bar_value = c\<rparr>"])

lemma bar_loadData_mem:
  assumes "r \<in> set rawData"
  shows "\<lparr>category = nullish (genre r) ''Unknown'',
          stack = nullish (age_category r) ''Unknown'',
          bar_value = length (filter (\<lambda>x. genre x = genre r \<and> age_category x = age_category r) rawData)\<rparr>
         \<in> set (bar_loadData rawData)"
  using assms unfolding bar_loadData_set by (rule imageI)



section \<open>Bar reducer: missing fields\<close>

text \<open>
  C4. A row that lacks its genre or its age category reaches the reducer with the
  empty text in that field. The operator \<^verbatim>\<open>??\<close> does not replace the empty text: the
  two rows below are emitted under the empty label, not under "Unknown".
\<close>

theorem bar_loadData_empty_label:
  "bar_loadData [book [] ''Adult'', book ''Fiction'' []]
   = [\<lparr>category = [], stack = ''Adult'', bar_value = 1\<rparr>,
      \<lparr>category = ''Fiction'', stack = [], bar_value = 1\<rparr>]"
  by (simp add: bar_loadData_def rollup2_def rollup_def group_def book_def nullish_def)

text \<open>
  What \<^verbatim>\<open>??\<close> does replace: where the table has no genre or no age column, the field
  is \<^verbatim>\<open>undefined\<close> and the row is counted in a datum labelled "Unknown".
\<close>

lemma bar_loadData_unknown:
  assumes "r \<in> set rawData" and "genre r = None \<or> age_category r = None"
  shows "\<exists>b \<in> set (bar_loadData rawData).
           (genre r = None \<longrightarrow> category b = ''Unknown'') \<and>
           (age_category r = None \<longrightarrow> stack b = ''Unknown'') \<and>
           category b = nullish (genre r) ''Unknown'' \<and>
           stack b = nullish (age_category r) ''Unknown'' \<and>
           bar_value b = length (filter (\<lambda>x. genre x = genre r \<and> age_category x = age_category r) rawData) \<and>
           0 < bar_value b"
proof -
  let ?n = "length (filter (\<lambda>x. genre x = genre r \<and> age_category x = age_category r) rawData)"
  have "r \<in> set (filter (\<lambda>x. genre x = genre r \<and> age_category x = age_category r) rawData)"
    using assms(1) by simp
  then have "0 < ?n" by (rule length_pos_if_in_set)
  then show ?thesis
    using bar_loadData_mem [OF assms(1)] by (auto simp: nullish_def intro!: bexI)
qed

section \<open>Heatmap reducer: the emitted datums\<close>

lemma heatmap_loadData_set:
  "set (heatmap_loadData rawData)
   = (\<lambda>r. \<lparr>hm_genre = heat_genre (topGenres 20 rawData) r, hm_decade = decade_of r,
            hm_count = length (filter (\<lambda>x. heat_genre (topGenres 20 rawData) x
                                             = heat_genre (topGenres 20 rawData) r
                                           \<and> decade_of x = decade_of r) rawData)\<rparr>) ` set rawData"
  unfolding heatmap_loadData_def Let_def
  by (rule rollup2_flat_set [where mk = "\<lambda>g d c. \<lparr>hm_genre = g, hm_decade = d, hm_count = c\<rparr>"])


lemmas coercion_defs = to_number_def string_to_number_def trim_def is_ws_def unsigned_decimal_def
  is_digit_def digit_of_def exponent_part_def digits_value_def scale10_def radix_literal_def js_neg_def

lemmas decade_defs = decade_of_def js_mul10_def js_floor_def js_div10_def

lemmas reducer_defs = heat_genre_def topGenres_def top_keys_def rollup2_def rollup_def group_def

lemma decade_of_NaN_iff: "decade_of r = NaN \<longleftrightarrow> to_number (publicationYear r) = NaN"
  by (cases "to_number (publicationYear r)") (simp_all add: decade_defs)

lemma heatmap_loadData_mem:
  assumes "r \<in> set rawData"
  shows "\<lparr>hm_genre = heat_genre (topGenres 20 rawData) r, hm_decade = decade_of r,
          hm_count = length (filter (\<lambda>x. heat_genre (topGenres 20 rawData) x
                                           = heat_genre (topGenres 20 rawData) r
                                         \<and> decade_of x = decade_of r) rawData)\<rparr>
         \<in> set (heatmap_loadData rawData)"
  using assms unfolding heatmap_loadData_set by (rule imageI)

section \<open>Heatmap reducer: years that are not numbers\<close>

text \<open>
  C1. The claim has rows with a non-numeric publication year excluded, and no datum
  keyed by \<^verbatim>\<open>NaN\<close>. The reducer has no filter: the one row below, whose year is the text
  "unknown", is emitted as the datum (Fiction, \<^verbatim>\<open>NaN\<close>, 1).
\<close>

theorem heatmap_nan_bucket_counterexample:
  "to_number (publicationYear (dated ''Fiction'' ''unknown'')) = NaN \<and>
   heatmap_loadData [dated ''Fiction'' ''unknown'']
     = [\<lparr>hm_genre = Some ''Fiction'', hm_decade = NaN, hm_count = 1\<rparr>]"
  by (simp add: heatmap_loadData_def reducer_defs dated_def decade_defs coercion_defs)

text \<open>
  C1, amended. For every raw-row sequence, a row whose publication year does not
  coerce to a number is kept: it is counted in the datum of its genre (or of "Other")
  whose decade is \<^verbatim>\<open>NaN\<close>, together with every other such row of that genre.
\<close>

theorem heatmap_nan_bucket:
  assumes "r \<in> set rawData" and "to_number (publicationYear r) = NaN"
  shows "\<exists>d \<in> set (heatmap_loadData rawData).
           hm_genre d = heat_genre (topGenres 20 rawData) r \<and>
           hm_decade d = NaN \<and>
           hm_count d = length (filter (\<lambda>x. heat_genre (topGenres 20 rawData) x
                                            = heat_genre (topGenres 20 rawData) r
                                          \<and> to_number (publicationYear x) = NaN) rawData) \<and>
           0 < hm_count d"
proof -
  let ?P = "\<lambda>x. heat_genre (topGenres 20 rawData) x = heat_genre (topGenres 20 rawData) r
                \<and> to_number (publicationYear x) = NaN"
  let ?d = "\<lparr>hm_genre = heat_genre (topGenres 20 rawData) r, hm_decade = NaN,
             hm_count = length (filter ?P rawData)\<rparr>"
  have nan: "decade_of r = NaN" using assms(2) by (simp add: decade_of_NaN_iff)
  have "?d \<in> set (heatmap_loadData rawData)"
    using heatmap_loadData_mem [OF assms(1)] by (simp add: nan decade_of_NaN_iff)
  moreover have "r \<in> set (filter ?P rawData)" using assms by simp
  then have "0 < length (filter ?P rawData)" by (rule length_pos_if_in_set)
  ultimately show ?thesis by (intro bexI [of _ ?d]) simp_all
qed

theorem heatmap_nan_bucket_witness:
  "dated ''Fiction'' ''n/a'' \<in> set [dated ''Fiction'' ''1994'', dated ''Fiction'' ''n/a'', dated ''Fiction'' ''?'']
   \<and> to_number (publicationYear (dated ''Fiction'' ''n/a'')) = NaN
   \<and> (\<exists>d \<in> set (heatmap_loadData [dated ''Fiction'' ''1994'', dated ''Fiction'' ''n/a'', dated ''Fiction'' ''?'']).
         hm_genre d = Some ''Fiction'' \<and> hm_decade d = NaN \<and> hm_count d = 2)"
proof -
  have n: "to_number (publicationYear (dated ''Fiction'' ''n/a'')) = NaN"
    by (simp add: dated_def coercion_defs)
  have m: "dated ''Fiction'' ''n/a'' \<in> set [dated ''Fiction'' ''1994'', dated ''Fiction'' ''n/a'', dated ''Fiction'' ''?'']"
    by simp
  show ?thesis
    using heatmap_nan_bucket [OF m n] n
    by (auto simp: reducer_defs dated_def coercion_defs)
qed

section \<open>Heatmap reducer: decades\<close>




section \<open>Heatmap reducer: genre labels\<close>

lemma top_keys_subset: "set (top_keys n es) \<subseteq> fst ` set es"
proof -
  have "set (take n (sort_key (\<lambda>e. - int (snd e)) es)) \<subseteq> set es"
    using set_take_subset [of n "sort_key (\<lambda>e. - int (snd e)) es"] by simp
  then show ?thesis by (auto simp: top_keys_def)
qed

lemma top_keys_length: "length (top_keys n es) = min n (length es)"
  by (simp add: top_keys_def min.commute)

lemma top_keys_distinct:
  assumes "distinct (map fst es)"
  shows "distinct (top_keys n es)"
proof -
  let ?s = "sort_key (\<lambda>e. - int (snd e)) es"
  have "distinct (map fst ?s)"
    using assms by (simp add: distinct_map)
  then have "distinct (take n (map fst ?s))" by (rule distinct_take)
  then show ?thesis by (simp add: top_keys_def take_map)
qed

lemma top_keys_greatest:
  assumes "(k, c) \<in> set es" and "k \<notin> set (top_keys n es)"
    and "(k', c') \<in> set es" and "k' \<in> set (top_keys n es)"
    and "distinct (map fst es)"
  shows "c \<le> c'"
proof -
  let ?f = "\<lambda>e :: 'a \<times> nat. - int (snd e)"
  let ?s = "sort_key ?f es"
  have "sorted (map ?f ?s)" by (rule sorted_sort_key)
  then have "sorted (map ?f (take n ?s @ drop n ?s))"
    by (simp only: append_take_drop_id)
  then have "sorted (map ?f (take n ?s) @ map ?f (drop n ?s))"
    by (simp only: map_append)
  then have le: "\<forall>x \<in> set (take n ?s). \<forall>y \<in> set (drop n ?s). ?f x \<le> ?f y"
    by (auto simp: sorted_append)
  have "(k, c) \<in> set ?s" using assms(1) by simp
  then have "(k, c) \<in> set (take n ?s @ drop n ?s)"
    by (simp only: append_take_drop_id)
  then have "(k, c) \<in> set (take n ?s) \<or> (k, c) \<in> set (drop n ?s)"
    by (simp only: set_append Un_iff)
  moreover have "(k, c) \<notin> set (take n ?s)"
    using assms(2) by (force simp: top_keys_def)
  ultimately have kc: "(k, c) \<in> set (drop n ?s)" by simp
  from assms(4) obtain c'' where "(k', c'') \<in> set (take n ?s)"
    by (auto simp: top_keys_def)
  moreover from this have "(k', c'') \<in> set es"
    using set_take_subset [of n ?s] by auto
  then have "c'' = c'"
    by (rule eq_key_imp_eq_value [OF assms(5) _ assms(3)])
  ultimately have "(k', c') \<in> set (take n ?s)" by simp
  with kc le have "?f (k', c') \<le> ?f (k, c)" by blast
  then show ?thesis by simp
qed

lemma genre_entries_mem:
  "(g, c) \<in> set (rollup length genre rawData)
   \<longleftrightarrow> g \<in> genre ` set rawData \<and> c = genre_count rawData g"
  by (simp add: rollup_mem genre_count_def)

lemma genre_entries_distinct: "distinct (map fst (rollup length genre rawData))"
  by (simp add: rollup_keys group_distinct)

lemma genre_entries_length: "length (rollup length genre rawData) = card (genre ` set rawData)"
proof -
  have "length (rollup length genre rawData) = length (map fst (group genre rawData))"
    by (simp add: rollup_def)
  also have "\<dots> = card (set (map fst (group genre rawData)))"
    using distinct_card [OF group_distinct [of genre rawData]] by simp
  also have "\<dots> = card (genre ` set rawData)"
    using group_keys [of genre rawData] by simp
  finally show ?thesis .
qed

lemma topGenres_subset: "set (topGenres n rawData) \<subseteq> genre ` set rawData"
  using top_keys_subset [of n "rollup length genre rawData"]
  by (auto simp: topGenres_def genre_entries_mem)

lemma topGenres_distinct: "distinct (topGenres n rawData)"
  by (simp add: topGenres_def top_keys_distinct genre_entries_distinct)

lemma topGenres_length: "length (topGenres n rawData) = min n (card (genre ` set rawData))"
  by (simp add: topGenres_def top_keys_length genre_entries_length)

lemma topGenres_greatest:
  assumes "g \<in> set (topGenres n rawData)" and "g' \<in> genre ` set rawData"
    and "g' \<notin> set (topGenres n rawData)"
  shows "genre_count rawData g' \<le> genre_count rawData g"
proof -
  have "g \<in> genre ` set rawData" using assms(1) topGenres_subset by blast
  then have 1: "(g, genre_count rawData g) \<in> set (rollup length genre rawData)"
    by (simp add: genre_entries_mem)
  have 2: "(g', genre_count rawData g') \<in> set (rollup length genre rawData)"
    using assms(2) by (simp add: genre_entries_mem)
  show ?thesis
    using top_keys_greatest [OF 2 _ 1 _ genre_entries_distinct] assms(1,3)
    by (simp add: topGenres_def)
qed

lemma heatmap_labels:
  "hm_genre ` set (heatmap_loadData rawData) = heat_genre (topGenres 20 rawData) ` set rawData"
  by (force simp: heatmap_loadData_set image_iff)

lemma heat_genre_image:
  assumes "set tg \<subseteq> genre ` set rawData"
  shows "heat_genre tg ` set rawData
         = set tg \<union> (if \<exists>r \<in> set rawData. genre r \<notin> set tg then {Some ''Other''} else {})"
  using assms by (auto simp: heat_genre_def image_iff subset_iff split: if_splits)

text \<open>
  C5. The genre labels of the emitted datums are exactly the keys of \<open>topGenres 20\<close>,
  together with "Other" when some row's genre is not among them; there are at most 21
  labels. The keys of \<open>topGenres 20\<close> are the twenty most frequent genres: they are
  distinct genres of the input, twenty of them (all genres when there are fewer), and
  no genre left out has more rows than one kept.
\<close>

theorem heatmap_genre_labels:
  "hm_genre ` set (heatmap_loadData rawData)
     = set (topGenres 20 rawData)
       \<union> (if \<exists>r \<in> set rawData. genre r \<notin> set (topGenres 20 rawData) then {Some ''Other''} else {})
   \<and> card (hm_genre ` set (heatmap_loadData rawData)) \<le> 21
   \<and> distinct (topGenres 20 rawData)
   \<and> length (topGenres 20 rawData) = min 20 (card (genre ` set rawData))
   \<and> set (topGenres 20 rawData) \<subseteq> genre ` set rawData
   \<and> (\<forall>g \<in> set (topGenres 20 rawData). \<forall>g' \<in> genre ` set rawData - set (topGenres 20 rawData).
        genre_count rawData g' \<le> genre_count rawData g)"
proof -
  let ?tg = "topGenres 20 rawData"
  let ?other = "if \<exists>r \<in> set rawData. genre r \<notin> set ?tg then {Some ''Other''} else {}"
  have labels: "hm_genre ` set (heatmap_loadData rawData) = set ?tg \<union> ?other"
    by (simp only: heatmap_labels heat_genre_image [OF topGenres_subset])
  have "card (set ?tg) \<le> 20"
    using topGenres_length [of 20 rawData] topGenres_distinct [of 20 rawData]
    by (simp add: distinct_card)
  moreover have "card ?other \<le> 1" by simp
  moreover have "card (set ?tg \<union> ?other) \<le> card (set ?tg) + card ?other"
    by (rule card_Un_le)
  ultimately have "card (set ?tg \<union> ?other) \<le> 21" by linarith
  with labels have card: "card (hm_genre ` set (heatmap_loadData rawData)) \<le> 21" by simp
  have great: "\<forall>g \<in> set ?tg. \<forall>g' \<in> genre ` set rawData - set ?tg.
        genre_count rawData g' \<le> genre_count rawData g"
    using topGenres_greatest by blast
  show ?thesis
    by (intro conjI labels card great topGenres_distinct topGenres_length topGenres_subset)
qed

lemma shelf_top: "topGenres 20 shelf = map (\<lambda>c. Some [c]) ''uabcdefghijklmnopqrs''"
  by (simp add: shelf_def topGenres_def top_keys_def rollup_def group_def dated_def)

theorem heatmap_genre_labels_witness:
  "hm_genre ` set (heatmap_loadData shelf) = set (topGenres 20 shelf) \<union> {Some ''Other''}
   \<and> card (hm_genre ` set (heatmap_loadData shelf)) \<le> 21
   \<and> length (topGenres 20 shelf) = 20"
proof -
  have ex: "\<exists>r \<in> set shelf. genre r \<notin> set (topGenres 20 shelf)"
    unfolding shelf_top by (simp add: shelf_def dated_def)
  have c: "card (genre ` set shelf) = 21"
    by (simp add: shelf_def dated_def)
  note t = heatmap_genre_labels [of shelf]
  from t ex have 1: "hm_genre ` set (heatmap_loadData shelf)
      = set (topGenres 20 shelf) \<union> {Some ''Other''}"
    by simp
  from t have 2: "card (hm_genre ` set (heatmap_loadData shelf)) \<le> 21"
    by (rule conjunct1 [OF conjunct2])
  from t c have 3: "length (topGenres 20 shelf) = 20"
    by simp
  show ?thesis
    by (intro conjI 1 2 3)
qed

section \<open>Flow reducer: status nodes\<close>

lemma of_char_to_lower:
  "(of_char (to_lower_char c) :: nat) =
     (if (65 \<le> (of_char c :: nat) \<and> (of_char c :: nat) \<le> 90)
         \<or> (192 \<le> (of_char c :: nat) \<and> (of_char c :: nat) \<le> 222 \<and> (of_char c :: nat) \<noteq> 215)
      then of_char c + 32 else of_char c)"
  by (auto simp: to_lower_char_def Let_def)

lemma to_lower_char_eq:
  "to_lower_char c = l \<longleftrightarrow> (of_char (to_lower_char c) :: nat) = of_char l"
  by simp

lemma char_eq_nat: "c = l \<longleftrightarrow> (of_char c :: nat) = of_char l"
  by simp

lemma to_lower_t: "to_lower_char c = CHR ''t'' \<longleftrightarrow> c = CHR ''t'' \<or> c = CHR ''T''"
  unfolding to_lower_char_eq of_char_to_lower char_eq_nat [of c] by (simp split: if_splits) arith

lemma to_lower_r: "to_lower_char c = CHR ''r'' \<longleftrightarrow> c = CHR ''r'' \<or> c = CHR ''R''"
  unfolding to_lower_char_eq of_char_to_lower char_eq_nat [of c] by (simp split: if_splits) arith

lemma to_lower_u: "to_lower_char c = CHR ''u'' \<longleftrightarrow> c = CHR ''u'' \<or> c = CHR ''U''"
  unfolding to_lower_char_eq of_char_to_lower char_eq_nat [of c] by (simp split: if_splits) arith

lemma to_lower_e: "to_lower_char c = CHR ''e'' \<longleftrightarrow> c = CHR ''e'' \<or> c = CHR ''E''"
  unfolding to_lower_char_eq of_char_to_lower char_eq_nat [of c] by (simp split: if_splits) arith

lemma lower_true_iff: "toLowerCase (js_String x) = ''true'' \<longleftrightarrow> equals_true_ci x"
proof (cases x)
  case None
  then show ?thesis
    by (simp add: js_String_def toLowerCase_def to_lower_char_def equals_true_ci_def)
next
  case (Some s)
  have "map to_lower_char s = ''true'' \<longleftrightarrow>
        (\<exists>a b c d. s = [a, b, c, d] \<and> to_lower_char a = CHR ''t'' \<and> to_lower_char b = CHR ''r''
            \<and> to_lower_char c = CHR ''u'' \<and> to_lower_char d = CHR ''e'')"
    by (auto simp: map_eq_Cons_conv)
  also have "\<dots> \<longleftrightarrow> equals_true_ci (Some s)"
    unfolding to_lower_t to_lower_r to_lower_u to_lower_e equals_true_ci_def
    by (auto split: list.splits)
  finally show ?thesis
    using Some by (simp add: js_String_def toLowerCase_def)
qed


lemma addNode_keys: "fst ` set (addNode nm l m) = insert nm (fst ` set m)"
  by (auto simp: addNode_def)

lemma addNode_names:
  "(\<forall>e \<in> set m. name (snd e) = fst e) \<Longrightarrow> \<forall>e \<in> set (addNode nm l m). name (snd e) = fst e"
  by (auto simp: addNode_def)

lemma flow_step_keys:
  "fst ` set (fst (flow_step tg st d))
   = fst ` set (fst st) \<union>
     (if genre d \<in> set tg
      then {genre d, age_category d, Some (movieStatus d), Some (bestsellerStatus d)} else {})"
  by (auto simp: flow_step_def Let_def addNode_keys)

lemma flow_step_names:
  "(\<forall>e \<in> set (fst st). name (snd e) = fst e)
   \<Longrightarrow> \<forall>e \<in> set (fst (flow_step tg st d)). name (snd e) = fst e"
proof -
  assume a: "\<forall>e \<in> set (fst st). name (snd e) = fst e"
  have "\<forall>e \<in> set (addNode (Some (bestsellerStatus d)) 3
               (addNode (Some (movieStatus d)) 2
                 (addNode (age_category d) 1
                   (addNode (genre d) 0 (fst st))))). name (snd e) = fst e"
    by (intro addNode_names a)
  with a show ?thesis
    by (simp add: flow_step_def Let_def)
qed

lemma flow_fold_keys:
  "fst ` set (fst (foldl (flow_step tg) st ds))
   = fst ` set (fst st) \<union>
     (\<Union>d \<in> {d \<in> set ds. genre d \<in> set tg}.
        {genre d, age_category d, Some (movieStatus d), Some (bestsellerStatus d)})"
proof (induction ds arbitrary: st)
  case Nil
  show ?case by simp
next
  case (Cons d ds)
  show ?case
    unfolding foldl_Cons Cons.IH flow_step_keys by auto
qed

lemma flow_fold_names:
  "(\<forall>e \<in> set (fst st). name (snd e) = fst e)
   \<Longrightarrow> \<forall>e \<in> set (fst (foldl (flow_step tg) st ds)). name (snd e) = fst e"
proof (induction ds arbitrary: st)
  case Nil
  then show ?case by simp
next
  case (Cons d ds)
  show ?case
    unfolding foldl_Cons by (rule Cons.IH) (rule flow_step_names [OF Cons.prems])
qed

lemma sankey_node_names:
  assumes "sankey_loadData rawData = Some (nodes, links)"
  shows "name ` set nodes
         = (\<Union>d \<in> {d \<in> set rawData. genre d \<in> set (topGenres 10 rawData)}.
              {genre d, age_category d, Some (movieStatus d), Some (bestsellerStatus d)})"
proof -
  let ?st = "foldl (flow_step (topGenres 10 rawData)) ([], []) rawData"
  have nodes: "nodes = map snd (fst ?st)"
    using assms by (auto simp: sankey_loadData_def Let_def split: if_splits)
  have "\<forall>e \<in> set (fst ?st). name (snd e) = fst e"
    by (rule flow_fold_names) simp
  then have "name ` set nodes = fst ` set (fst ?st)"
    unfolding nodes by (force simp: image_iff)
  then show ?thesis
    by (simp add: flow_fold_keys)
qed

lemma status_labels:
  "bestsellerStatus d = (if equals_true_ci (bestseller_status d) then ''Bestseller'' else ''Not Bestseller'')"
  "movieStatus d = (if equals_true_ci (adapted_to_movie d) then ''Adapted To Movie'' else ''Not Adapted To Movie'')"
  by (simp_all add: bestsellerStatus_def movieStatus_def isBestseller_def isMovie_def lower_true_iff)

lemmas flow_defs = sankey_loadData_def flow_step_def Let_def addNode_def addLink_def link_key_def
  make_link_def element_def js_String_def status_labels equals_true_ci_def
  topGenres_def top_keys_def rollup_def group_def

lemma addNode_all:
  assumes "\<forall>e \<in> set m. P e" and "P (nm, \<lparr>name = nm, layer = l\<rparr>)"
  shows "\<forall>e \<in> set (addNode nm l m). P e"
  using assms by (auto simp: addNode_def)

lemma addNode_distinct: "distinct (map fst m) \<Longrightarrow> distinct (map fst (addNode nm l m))"
  by (auto simp: addNode_def)

lemma flow_step_origin:
  assumes inv: "\<forall>e \<in> set (fst st). layer (snd e) \<le> 3 \<and> (\<exists>r \<in> S. label_at (layer (snd e)) r = fst e)"
    and d: "genre d \<in> set tg \<longrightarrow> d \<in> S"
  shows "\<forall>e \<in> set (fst (flow_step tg st d)).
           layer (snd e) \<le> 3 \<and> (\<exists>r \<in> S. label_at (layer (snd e)) r = fst e)"
proof (cases "genre d \<in> set tg")
  case False
  then show ?thesis using inv by (simp add: flow_step_def)
next
  case True
  with d have dS: "d \<in> S" by simp
  let ?P = "\<lambda>e :: string option \<times> MyNode.
              layer (snd e) \<le> 3 \<and> (\<exists>r \<in> S. label_at (layer (snd e)) r = fst e)"
  have 0: "?P (genre d, \<lparr>name = genre d, layer = 0\<rparr>)"
    using dS by (auto simp: label_at_def)
  have 1: "?P (age_category d, \<lparr>name = age_category d, layer = 1\<rparr>)"
    using dS by (auto simp: label_at_def)
  have 2: "?P (Some (movieStatus d), \<lparr>name = Some (movieStatus d), layer = 2\<rparr>)"
    using dS by (auto simp: label_at_def)
  have 3: "?P (Some (bestsellerStatus d), \<lparr>name = Some (bestsellerStatus d), layer = 3\<rparr>)"
    using dS by (auto simp: label_at_def)
  have "\<forall>e \<in> set (addNode (Some (bestsellerStatus d)) 3
               (addNode (Some (movieStatus d)) 2
                 (addNode (age_category d) 1
                   (addNode (genre d) 0 (fst st))))). ?P e"
    by (intro addNode_all [where P = ?P] inv 0 1 2 3)
  with True show ?thesis
    by (simp add: flow_step_def Let_def)
qed

lemma flow_fold_origin:
  assumes "\<forall>e \<in> set (fst st). layer (snd e) \<le> 3 \<and> (\<exists>r \<in> S. label_at (layer (snd e)) r = fst e)"
    and "\<forall>d \<in> set ds. genre d \<in> set tg \<longrightarrow> d \<in> S"
  shows "\<forall>e \<in> set (fst (foldl (flow_step tg) st ds)).
           layer (snd e) \<le> 3 \<and> (\<exists>r \<in> S. label_at (layer (snd e)) r = fst e)"
  using assms
proof (induction ds arbitrary: st)
  case Nil
  then show ?case by simp
next
  case (Cons d ds)
  have "\<forall>e \<in> set (fst (flow_step tg st d)).
           layer (snd e) \<le> 3 \<and> (\<exists>r \<in> S. label_at (layer (snd e)) r = fst e)"
    by (rule flow_step_origin) (use Cons.prems in auto)
  then show ?case
    unfolding foldl_Cons by (rule Cons.IH) (use Cons.prems in auto)
qed

lemma flow_step_distinct:
  "distinct (map fst (fst st)) \<Longrightarrow> distinct (map fst (fst (flow_step tg st d)))"
  by (simp add: flow_step_def Let_def addNode_distinct)

lemma flow_fold_distinct:
  "distinct (map fst (fst st)) \<Longrightarrow> distinct (map fst (fst (foldl (flow_step tg) st ds)))"
  by (induction ds arbitrary: st) (simp_all add: flow_step_distinct)

lemma sankey_nodes_distinct:
  assumes "sankey_loadData rawData = Some (nodes, links)"
  shows "distinct (map name nodes)"
proof -
  let ?st = "foldl (flow_step (topGenres 10 rawData)) ([], []) rawData"
  have nodes: "nodes = map snd (fst ?st)"
    using assms by (auto simp: sankey_loadData_def Let_def split: if_splits)
  have "\<forall>e \<in> set (fst ?st). name (snd e) = fst e"
    by (rule flow_fold_names) simp
  then have "map name nodes = map fst (fst ?st)"
    unfolding nodes by simp
  moreover have "distinct (map fst (fst ?st))"
    by (rule flow_fold_distinct) simp
  ultimately show ?thesis by simp
qed

lemma sankey_node_origin:
  assumes "sankey_loadData rawData = Some (nodes, links)" and "n \<in> set nodes"
  shows "layer n \<le> 3 \<and> (\<exists>r \<in> set (surviving rawData). label_at (layer n) r = name n)"
proof -
  let ?tg = "topGenres 10 rawData"
  let ?st = "foldl (flow_step ?tg) ([], []) rawData"
  have nodes: "nodes = map snd (fst ?st)"
    using assms(1) by (auto simp: sankey_loadData_def Let_def split: if_splits)
  then obtain e where e: "e \<in> set (fst ?st)" "n = snd e"
    using assms(2) by auto
  have "\<forall>e \<in> set (fst ?st). name (snd e) = fst e"
    by (rule flow_fold_names) simp
  with e have nm: "name n = fst e" by simp
  have "\<forall>e \<in> set (fst ?st). layer (snd e) \<le> 3
          \<and> (\<exists>r \<in> set (surviving rawData). label_at (layer (snd e)) r = fst e)"
    by (rule flow_fold_origin) (simp_all add: surviving_def)
  with e nm show ?thesis by simp
qed

lemma status_distinct: "movieStatus r \<noteq> bestsellerStatus d"
  by (simp add: movieStatus_def bestsellerStatus_def)

lemma bestseller_node_layer:
  assumes "sankey_loadData rawData = Some (nodes, links)" and "n \<in> set nodes"
    and "name n = Some (bestsellerStatus d)"
    and "\<forall>r \<in> set (surviving rawData).
           genre r \<noteq> Some (bestsellerStatus d) \<and> age_category r \<noteq> Some (bestsellerStatus d)"
  shows "layer n = 3"
proof -
  from sankey_node_origin [OF assms(1,2)] obtain r
    where le: "layer n \<le> 3" and r: "r \<in> set (surviving rawData)"
      and lab: "label_at (layer n) r = Some (bestsellerStatus d)"
    using assms(3) by auto
  from assms(4) r have g: "genre r \<noteq> Some (bestsellerStatus d)"
    and a: "age_category r \<noteq> Some (bestsellerStatus d)" by simp_all
  show ?thesis
  proof (rule ccontr)
    assume "layer n \<noteq> 3"
    with le have "layer n = 0 \<or> layer n = 1 \<or> layer n = 2" by arith
    with lab g a status_distinct [of r d] show False
      by (auto simp: label_at_def)
  qed
qed

lemma movie_node_layer:
  assumes "sankey_loadData rawData = Some (nodes, links)" and "n \<in> set nodes"
    and "name n = Some (movieStatus d)"
    and "\<forall>r \<in> set (surviving rawData).
           genre r \<noteq> Some (movieStatus d) \<and> age_category r \<noteq> Some (movieStatus d)"
  shows "layer n = 2"
proof -
  from sankey_node_origin [OF assms(1,2)] obtain r
    where le: "layer n \<le> 3" and r: "r \<in> set (surviving rawData)"
      and lab: "label_at (layer n) r = Some (movieStatus d)"
    using assms(3) by auto
  from assms(4) r have g: "genre r \<noteq> Some (movieStatus d)"
    and a: "age_category r \<noteq> Some (movieStatus d)" by simp_all
  show ?thesis
  proof (rule ccontr)
    assume "layer n \<noteq> 2"
    with le have "layer n = 0 \<or> layer n = 1 \<or> layer n = 3" by arith
    with lab g a status_distinct [of d r] show False
      by (auto simp: label_at_def)
  qed
qed

text \<open>
  C10. The claim has the status name of every processed row on a layer-3 node. A node
  name is stored once, at the layer of its first \<^verbatim>\<open>addNode\<close>: for the one row of genre
  "Bestseller" whose bestseller field is "true", the name "Bestseller" is the genre
  node of layer 0 and the output has no node of layer 3.
\<close>

theorem sankey_status_nodes_counterexample:
  "bestsellerStatus (swap ''Bestseller'' ''Adult'' ''false'' ''true'') = ''Bestseller'' \<and>
   sankey_loadData [swap ''Bestseller'' ''Adult'' ''false'' ''true'']
     = Some ([\<lparr>name = Some ''Bestseller'', layer = 0\<rparr>, \<lparr>name = Some ''Adult'', layer = 1\<rparr>,
              \<lparr>name = Some ''Not Adapted To Movie'', layer = 2\<rparr>],
             [\<lparr>source = Some ''Bestseller'', target = Some ''Adult'', link_value = 1\<rparr>,
              \<lparr>source = Some ''Adult'', target = Some ''Not Adapted To Movie'', link_value = 1\<rparr>,
              \<lparr>source = Some ''Not Adapted To Movie'', target = Some ''Bestseller'',
                link_value = 1\<rparr>])"
  by (simp add: flow_defs swap_def)

text \<open>
  C10, amended. For a row the flow reducer processes (its genre is among the ten most
  frequent), the bestseller name is "Bestseller" exactly when the bestseller field
  spells "true" in any case, and "Not Bestseller" otherwise, a missing or empty field
  included; likewise "Adapted To Movie" and "Not Adapted To Movie". Node names are
  distinct, a node of each of the two names is emitted, and it is the layer-3 node
  (for the movie name, the layer-2 node) whenever no processed row has that name as
  its genre or its age category.
\<close>

theorem sankey_status_layers:
  assumes "sankey_loadData rawData = Some (nodes, links)"
    and "d \<in> set rawData" and "genre d \<in> set (topGenres 10 rawData)"
  shows "(bestsellerStatus d = ''Bestseller'' \<longleftrightarrow> equals_true_ci (bestseller_status d)) \<and>
         (bestsellerStatus d = ''Not Bestseller'' \<longleftrightarrow> \<not> equals_true_ci (bestseller_status d)) \<and>
         (movieStatus d = ''Adapted To Movie'' \<longleftrightarrow> equals_true_ci (adapted_to_movie d)) \<and>
         (movieStatus d = ''Not Adapted To Movie'' \<longleftrightarrow> \<not> equals_true_ci (adapted_to_movie d)) \<and>
         (bestseller_status d = None \<or> bestseller_status d = Some [] \<longrightarrow>
            bestsellerStatus d = ''Not Bestseller'') \<and>
         (adapted_to_movie d = None \<or> adapted_to_movie d = Some [] \<longrightarrow>
            movieStatus d = ''Not Adapted To Movie'') \<and>
         distinct (map name nodes) \<and>
         (\<exists>n \<in> set nodes. name n = Some (bestsellerStatus d) \<and>
            ((\<forall>r \<in> set (surviving rawData).
                genre r \<noteq> Some (bestsellerStatus d) \<and> age_category r \<noteq> Some (bestsellerStatus d))
             \<longrightarrow> layer n = 3)) \<and>
         (\<exists>n \<in> set nodes. name n = Some (movieStatus d) \<and>
            ((\<forall>r \<in> set (surviving rawData).
                genre r \<noteq> Some (movieStatus d) \<and> age_category r \<noteq> Some (movieStatus d))
             \<longrightarrow> layer n = 2))"
proof -
  have "Some (bestsellerStatus d) \<in> name ` set nodes"
    unfolding sankey_node_names [OF assms(1)] using assms(2,3) by blast
  then obtain n where n: "n \<in> set nodes" "name n = Some (bestsellerStatus d)" by auto
  have best: "\<exists>n \<in> set nodes. name n = Some (bestsellerStatus d) \<and>
            ((\<forall>r \<in> set (surviving rawData).
                genre r \<noteq> Some (bestsellerStatus d) \<and> age_category r \<noteq> Some (bestsellerStatus d))
             \<longrightarrow> layer n = 3)"
    using n bestseller_node_layer [OF assms(1) n] by blast
  have "Some (movieStatus d) \<in> name ` set nodes"
    unfolding sankey_node_names [OF assms(1)] using assms(2,3) by blast
  then obtain k where k: "k \<in> set nodes" "name k = Some (movieStatus d)" by auto
  have movie: "\<exists>n \<in> set nodes. name n = Some (movieStatus d) \<and>
            ((\<forall>r \<in> set (surviving rawData).
                genre r \<noteq> Some (movieStatus d) \<and> age_category r \<noteq> Some (movieStatus d))
             \<longrightarrow> layer n = 2)"
    using k movie_node_layer [OF assms(1) k] by blast
  have missing: "\<not> equals_true_ci None" "\<not> equals_true_ci (Some [])"
    by (simp_all add: equals_true_ci_def)
  have labels:
    "(bestsellerStatus d = ''Bestseller'' \<longleftrightarrow> equals_true_ci (bestseller_status d))"
    "(bestsellerStatus d = ''Not Bestseller'' \<longleftrightarrow> \<not> equals_true_ci (bestseller_status d))"
    "(movieStatus d = ''Adapted To Movie'' \<longleftrightarrow> equals_true_ci (adapted_to_movie d))"
    "(movieStatus d = ''Not Adapted To Movie'' \<longleftrightarrow> \<not> equals_true_ci (adapted_to_movie d))"
    "(bestseller_status d = None \<or> bestseller_status d = Some [] \<longrightarrow>
            bestsellerStatus d = ''Not Bestseller'')"
    "(adapted_to_movie d = None \<or> adapted_to_movie d = Some [] \<longrightarrow>
            movieStatus d = ''Not Adapted To Movie'')"
    using missing by (auto simp: status_labels)
  show ?thesis
    by (intro conjI labels best movie sankey_nodes_distinct [OF assms(1)])
qed

theorem sankey_status_layers_witness:
  "sankey_loadData [unrated]
     = Some ([\<lparr>name = Some ''Fiction'', layer = 0\<rparr>, \<lparr>name = Some ''Adult'', layer = 1\<rparr>,
              \<lparr>name = Some ''Adapted To Movie'', layer = 2\<rparr>,
              \<lparr>name = Some ''Not Bestseller'', layer = 3\<rparr>],
             [\<lparr>source = Some ''Fiction'', target = Some ''Adult'', link_value = 1\<rparr>,
              \<lparr>source = Some ''Adult'', target = Some ''Adapted To Movie'', link_value = 1\<rparr>,
              \<lparr>source = Some ''Adapted To Movie'', target = Some ''Not Bestseller'', link_value = 1\<rparr>])
   \<and> genre unrated \<in> set (topGenres 10 [unrated])
   \<and> bestseller_status unrated = None
   \<and> bestsellerStatus unrated = ''Not Bestseller''
   \<and> movieStatus unrated = ''Adapted To Movie''
   \<and> (\<exists>n \<in> set [\<lparr>name = Some ''Fiction'', layer = 0\<rparr>, \<lparr>name = Some ''Adult'', layer = 1\<rparr>,
              \<lparr>name = Some ''Adapted To Movie'', layer = 2\<rparr>,
              \<lparr>name = Some ''Not Bestseller'', layer = 3\<rparr>].
         name n = Some ''Not Bestseller'' \<and> layer n = 3)
   \<and> (\<exists>n \<in> set [\<lparr>name = Some ''Fiction'', layer = 0\<rparr>, \<lparr>name = Some ''Adult'', layer = 1\<rparr>,
              \<lparr>name = Some ''Adapted To Movie'', layer = 2\<rparr>,
              \<lparr>name = Some ''Not Bestseller'', layer = 3\<rparr>].
         name n = Some ''Adapted To Movie'' \<and> layer n = 2)"
proof -
  let ?nodes = "[\<lparr>name = Some ''Fiction'', layer = 0\<rparr>, \<lparr>name = Some ''Adult'', layer = 1\<rparr>,
              \<lparr>name = Some ''Adapted To Movie'', layer = 2\<rparr>,
              \<lparr>name = Some ''Not Bestseller'', layer = 3\<rparr>]"
  have e: "sankey_loadData [unrated]
     = Some (?nodes,
             [\<lparr>source = Some ''Fiction'', target = Some ''Adult'', link_value = 1\<rparr>,
              \<lparr>source = Some ''Adult'', target = Some ''Adapted To Movie'', link_value = 1\<rparr>,
              \<lparr>source = Some ''Adapted To Movie'', target = Some ''Not Bestseller'', link_value = 1\<rparr>])"
    by (simp add: flow_defs unrated_def)
  have g: "genre unrated \<in> set (topGenres 10 [unrated])"
    by (simp add: topGenres_def top_keys_def rollup_def group_def unrated_def)
  have m: "unrated \<in> set [unrated]" by simp
  have t: "equals_true_ci (adapted_to_movie unrated)" "bestseller_status unrated = None"
    by (simp_all add: unrated_def equals_true_ci_def)
  have s: "surviving [unrated] = [unrated]"
    using g by (simp add: surviving_def)
  have f: "genre unrated = Some ''Fiction''" "age_category unrated = Some ''Adult''"
    by (simp_all add: unrated_def)
  note inst = sankey_status_layers [OF e m g]
  have b: "bestsellerStatus unrated = ''Not Bestseller''" using inst t by simp
  have mv: "movieStatus unrated = ''Adapted To Movie''" using inst t by simp
  have l3: "\<exists>n \<in> set ?nodes. name n = Some ''Not Bestseller'' \<and> layer n = 3"
    using inst unfolding s b mv by (simp add: f)
  have l2: "\<exists>n \<in> set ?nodes. name n = Some ''Adapted To Movie'' \<and> layer n = 2"
    using inst unfolding s b mv by (simp add: f)
  show ?thesis
    by (intro conjI e g t(2) b mv l3 l2)
qed

section \<open>Flow reducer: links\<close>

lemma map_set_keys: "fst ` set (map_set k v m) = insert k (fst ` set m)"
proof (induction m)
  case Nil show ?case by simp
next
  case (Cons e m)
  obtain k' v' where e: "e = (k', v')" by (cases e)
  show ?case using Cons by (cases "k' = k") (auto simp: e)
qed

lemma map_set_distinct: "distinct (map fst m) \<Longrightarrow> distinct (map fst (map_set k v m))"
  by (induction m) (auto simp: map_set_keys)

lemma map_set_map_of: "map_of (map_set k v m) k' = (if k' = k then Some v else map_of m k')"
  by (induction m) auto

lemma bump_fold_distinct:
  "distinct (map fst m) \<Longrightarrow> distinct (map fst (foldl (\<lambda>m k. bump k m) m ks))"
  by (induction ks arbitrary: m) (simp_all add: bump_def map_set_distinct)

lemma bump_fold_map_of:
  "map_of (foldl (\<lambda>m k. bump k m) m ks) k
   = (if k \<in> set ks then Some ((case map_of m k of None \<Rightarrow> 0 | Some n \<Rightarrow> n) + count_list ks k)
      else map_of m k)"
proof (induction ks arbitrary: m)
  case Nil
  show ?case by simp
next
  case (Cons x ks)
  show ?case
    unfolding foldl_Cons Cons.IH
    by (auto simp: bump_def map_set_map_of split: option.splits)
qed

lemma bump_fold_mem:
  "(k, n) \<in> set (foldl (\<lambda>m k. bump k m) [] ks) \<longleftrightarrow> k \<in> set ks \<and> n = count_list ks k"
proof -
  have "(k, n) \<in> set (foldl (\<lambda>m k. bump k m) [] ks)
        \<longleftrightarrow> map_of (foldl (\<lambda>m k. bump k m) [] ks) k = Some n"
    using bump_fold_distinct [of "[]" ks] by simp
  then show ?thesis
    unfolding bump_fold_map_of by auto
qed

lemma addLink_bump: "addLink s t m = bump (pair_key (js_String s, js_String t)) m"
  by (simp add: addLink_def bump_def link_key_def pair_key_def Let_def)

lemma flow_step_links:
  "snd (flow_step tg st d)
   = (if genre d \<in> set tg then foldl (\<lambda>m k. bump k m) (snd st) (map pair_key (transitions d))
      else snd st)"
  by (simp add: flow_step_def Let_def addLink_bump transitions_def js_String_def)

lemma flow_fold_links:
  "snd (foldl (flow_step tg) st ds)
   = foldl (\<lambda>m k. bump k m) (snd st)
       (map pair_key (concat (map transitions (filter (\<lambda>d. genre d \<in> set tg) ds))))"
proof (induction ds arbitrary: st)
  case Nil
  show ?case by simp
next
  case (Cons d ds)
  show ?case
    unfolding foldl_Cons Cons.IH flow_step_links by simp
qed

lemma js_split_pipe_free: "pipe_free t \<Longrightarrow> js_split cur t = [rev cur @ t]"
  by (induction t arbitrary: cur) (auto simp: pipe_free_def)

lemma js_split_pair:
  "pipe_free s \<Longrightarrow> pipe_free t \<Longrightarrow> js_split cur (s @ ''|||'' @ t) = [rev cur @ s, t]"
proof (induction s arbitrary: cur)
  case Nil
  then show ?case by (simp add: js_split_pipe_free)
next
  case (Cons c s)
  from Cons.prems have "c \<noteq> CHR ''|''" "pipe_free s" by (auto simp: pipe_free_def)
  then show ?case using Cons by simp
qed

lemma make_link_pair:
  "pipe_free (fst p) \<Longrightarrow> pipe_free (snd p)
   \<Longrightarrow> make_link (pair_key p, n) = \<lparr>source = Some (fst p), target = Some (snd p), link_value = n\<rparr>"
proof -
  assume "pipe_free (fst p)" "pipe_free (snd p)"
  then have "js_split [] (fst p @ ''|||'' @ snd p) = [rev [] @ fst p, snd p]"
    by (rule js_split_pair)
  then have "js_split [] (pair_key p) = [fst p, snd p]"
    by (simp only: pair_key_def rev.simps append_Nil)
  then show ?thesis
    by (simp add: make_link_def element_def)
qed

lemma pair_key_inj:
  assumes "pipe_free (fst p)" "pipe_free (snd p)" "pipe_free (fst q)" "pipe_free (snd q)"
    and "pair_key p = pair_key q"
  shows "p = q"
proof -
  have "make_link (pair_key p, 0) = make_link (pair_key q, 0)" using assms(5) by simp
  then show ?thesis
    unfolding make_link_pair [OF assms(1,2)] make_link_pair [OF assms(3,4)]
    by (simp add: prod_eq_iff)
qed

lemma count_list_inj_map:
  assumes "\<forall>y \<in> set xs. f y = f x \<longrightarrow> y = x"
  shows "count_list (map f xs) (f x) = count_list xs x"
  using assms by (induction xs) auto

lemma status_pipe_free: "pipe_free (movieStatus d)" "pipe_free (bestsellerStatus d)"
  by (simp_all add: pipe_free_def movieStatus_def bestsellerStatus_def)

text \<open>
  Where no genre or age label of a surviving row contains the character \<open>|\<close>, the
  links are as the spec has them: one link for each pair of names that occurs as a
  transition, with the number of its occurrences, and no two links for one pair.
\<close>

lemma sankey_links_pipe_free:
  assumes "sankey_loadData rawData = Some (nodes, links)"
    and "\<forall>d \<in> set (surviving rawData).
           pipe_free (js_String (genre d)) \<and> pipe_free (js_String (age_category d))"
  shows "set links
         = (\<lambda>p. \<lparr>source = Some (fst p), target = Some (snd p),
                  link_value = count_list (concat (map transitions (surviving rawData))) p\<rparr>)
           ` set (concat (map transitions (surviving rawData)))"
    and "distinct (map (\<lambda>l. (source l, target l)) links)"
proof -
  let ?T = "concat (map transitions (surviving rawData))"
  let ?m = "foldl (\<lambda>m k. bump k m) [] (map pair_key ?T)"
  have links: "links = map make_link ?m"
    using assms(1)
    by (auto simp: sankey_loadData_def Let_def flow_fold_links surviving_def split: if_splits)
  have pf: "pipe_free (fst p) \<and> pipe_free (snd p)" if "p \<in> set ?T" for p
    using that assms(2) by (auto simp: transitions_def status_pipe_free)
  have inj: "p = q" if "p \<in> set ?T" "q \<in> set ?T" "pair_key p = pair_key q" for p q
    using pair_key_inj that pf by blast
  have cnt: "count_list (map pair_key ?T) (pair_key p) = count_list ?T p" if "p \<in> set ?T" for p
    by (rule count_list_inj_map) (use inj that in blast)
  have mem: "e \<in> set ?m \<longleftrightarrow> (\<exists>p \<in> set ?T. e = (pair_key p, count_list ?T p))" for e
  proof (cases e)
    case (Pair k n)
    show ?thesis
    proof
      assume "e \<in> set ?m"
      then have k: "k \<in> set (map pair_key ?T)" and n: "n = count_list (map pair_key ?T) k"
        unfolding Pair bump_fold_mem by simp_all
      from k obtain p where p: "p \<in> set ?T" "k = pair_key p" by auto
      with n cnt have "n = count_list ?T p" by simp
      with p show "\<exists>p \<in> set ?T. e = (pair_key p, count_list ?T p)"
        unfolding Pair by blast
    next
      assume "\<exists>p \<in> set ?T. e = (pair_key p, count_list ?T p)"
      then obtain p where p: "p \<in> set ?T" "k = pair_key p" "n = count_list ?T p"
        unfolding Pair by auto
      then have "k \<in> set (map pair_key ?T)" "n = count_list (map pair_key ?T) k"
        using cnt by simp_all
      then show "e \<in> set ?m"
        unfolding Pair bump_fold_mem by simp
    qed
  qed
  have link_of: "make_link (pair_key p, n) = \<lparr>source = Some (fst p), target = Some (snd p), link_value = n\<rparr>"
    if "p \<in> set ?T" for p n
    using pf [OF that] by (simp add: make_link_pair)
  show "set links = (\<lambda>p. \<lparr>source = Some (fst p), target = Some (snd p),
                  link_value = count_list ?T p\<rparr>) ` set ?T"
  proof (intro set_eqI iffI)
    fix l assume "l \<in> set links"
    then obtain e where "e \<in> set ?m" "l = make_link e" unfolding links by auto
    then obtain p where "p \<in> set ?T" "l = make_link (pair_key p, count_list ?T p)"
      using mem by auto
    then show "l \<in> (\<lambda>p. \<lparr>source = Some (fst p), target = Some (snd p),
                  link_value = count_list ?T p\<rparr>) ` set ?T"
      using link_of by auto
  next
    fix l assume "l \<in> (\<lambda>p. \<lparr>source = Some (fst p), target = Some (snd p),
                  link_value = count_list ?T p\<rparr>) ` set ?T"
    then obtain p where p: "p \<in> set ?T"
      and l: "l = \<lparr>source = Some (fst p), target = Some (snd p), link_value = count_list ?T p\<rparr>"
      by auto
    have "(pair_key p, count_list ?T p) \<in> set ?m" using mem p by blast
    then have "make_link (pair_key p, count_list ?T p) \<in> set links"
      unfolding links set_map by (rule imageI)
    then show "l \<in> set links" using link_of [OF p] l by simp
  qed
  have dk: "distinct (map fst ?m)" by (rule bump_fold_distinct) simp
  have "map (\<lambda>l. (source l, target l)) links = map (\<lambda>e. (source (make_link e), target (make_link e))) ?m"
    unfolding links by (simp add: comp_def)
  moreover have "inj_on (\<lambda>e. (source (make_link e), target (make_link e))) (set ?m)"
  proof (rule inj_onI)
    fix e e' assume e: "e \<in> set ?m" and e': "e' \<in> set ?m"
      and eq: "(source (make_link e), target (make_link e)) = (source (make_link e'), target (make_link e'))"
    from e obtain p where p: "p \<in> set ?T" "e = (pair_key p, count_list ?T p)" using mem by auto
    from e' obtain q where q: "q \<in> set ?T" "e' = (pair_key q, count_list ?T q)" using mem by auto
    from eq have "p = q"
      unfolding p(2) q(2) link_of [OF p(1)] link_of [OF q(1)] by (simp add: prod_eq_iff)
    then show "e = e'" using p q by simp
  qed
  moreover have "distinct ?m" using dk by (rule distinct_map [THEN iffD1, THEN conjunct1])
  ultimately show "distinct (map (\<lambda>l. (source l, target l)) links)"
    by (simp add: distinct_map)
qed

section \<open>Flow reducer: the separator in a label\<close>

text \<open>
  C6. A link is counted under the text \<open>source|||target\<close> and its two names are read
  back by splitting that text. For the one row of genre "Sci-Fi|||Fantasy" and age
  "Adult", the transition from the genre to the age is emitted as a link from
  "Sci-Fi" to "Fantasy": no link has the row's genre as its source or the row's age
  as its target.
\<close>

theorem sankey_separator_in_label:
  "sankey_loadData [swap ''Sci-Fi|||Fantasy'' ''Adult'' ''false'' ''false'']
     = Some ([\<lparr>name = Some ''Sci-Fi|||Fantasy'', layer = 0\<rparr>, \<lparr>name = Some ''Adult'', layer = 1\<rparr>,
              \<lparr>name = Some ''Not Adapted To Movie'', layer = 2\<rparr>,
              \<lparr>name = Some ''Not Bestseller'', layer = 3\<rparr>],
             [\<lparr>source = Some ''Sci-Fi'', target = Some ''Fantasy'', link_value = 1\<rparr>,
              \<lparr>source = Some ''Adult'', target = Some ''Not Adapted To Movie'', link_value = 1\<rparr>,
              \<lparr>source = Some ''Not Adapted To Movie'', target = Some ''Not Bestseller'',
                link_value = 1\<rparr>])"
  by (simp add: flow_defs swap_def)

section \<open>Resize notifications: debounce\<close>

lemma debounce_pending:
  assumes "burst wait ((t, a) # calls)"
  shows "flush (foldl (\<lambda>st (now, a). debounced_call wait now a st)
                  \<lparr>pending = Some (t + wait, a), published = P\<rparr> calls)
         = P @ [(fst (last ((t, a) # calls)) + wait, snd (last ((t, a) # calls)))]"
  using assms
proof (induction calls arbitrary: t a)
  case Nil
  show ?case by (simp add: flush_def)
next
  case (Cons c calls)
  obtain t' a' where c: "c = (t', a')" by (cases c)
  from Cons.prems have late: "\<not> t + wait \<le> t'" and rest: "burst wait ((t', a') # calls)"
    by (simp_all add: c)
  have step: "debounced_call wait t' a' \<lparr>pending = Some (t + wait, a), published = P\<rparr>
        = \<lparr>pending = Some (t' + wait, a'), published = P\<rparr>"
    using late by (simp add: debounced_call_def fire_def)
  show ?case
    using Cons.IH [OF rest] by (simp add: c step)
qed

lemma debounce_burst:
  assumes "calls \<noteq> []" and "burst wait calls"
  shows "debounce wait calls = [(fst (last calls) + wait, snd (last calls))]"
proof -
  obtain t a rest where calls: "calls = (t, a) # rest"
    using assms(1) by (cases calls) auto
  have first: "debounced_call wait t a \<lparr>pending = None, published = []\<rparr>
        = \<lparr>pending = Some (t + wait, a), published = []\<rparr>"
    by (simp add: debounced_call_def fire_def)
  show ?thesis
    using debounce_pending [of wait t a rest "[]"] assms(2)
    unfolding calls debounce_def by (simp add: first)
qed

lemma sankey_resize_updates_all: "sankey_resize_updates changes = changes"
  by (induction changes) (auto simp: sankey_resize_updates_def sankey_observer_def)

lemmas resize_defs = bar_resize_updates_def heatmap_resize_updates_def debounce_def
  debounced_call_def fire_def flush_def

text \<open>
  C2. Three layout changes within 120 ms form a burst. The stacked bar chart and the
  heatmap publish one size for it, the last one measured, 200 ms after the last
  change. The Sankey chart publishes all three, each at the time of its change:
  nothing is held back and no earlier measurement is dropped.
\<close>

theorem sankey_resize_not_debounced:
  "burst 200 [(0, px 800 600), (50, px 820 600), (120, px 840 600)] \<and>
   sankey_resize_updates [(0, px 800 600), (50, px 820 600), (120, px 840 600)]
     = [(0, px 800 600), (50, px 820 600), (120, px 840 600)] \<and>
   bar_resize_updates [(0, px 800 600), (50, px 820 600), (120, px 840 600)]
     = [(320, px 840 600)] \<and>
   heatmap_resize_updates [(0, px 800 600), (50, px 820 600), (120, px 840 600)]
     = [(320, px 840 600)]"
  by (simp add: sankey_resize_updates_def sankey_observer_def resize_defs px_def)

section \<open>Draw effects: suppression\<close>

lemmas draw_defs = bar_draw_effect_def heatmap_draw_effect_def sankey_draw_effect_def falsy_def

text \<open>
  C7. For each of the three charts, when the aggregated data is empty or the width or
  the height of the viewport is zero, the draw effect returns before it touches the
  drawing surface: whatever the drawing procedure, no mark is added, and a surface
  that was empty stays empty.
\<close>

theorem draw_effects_suppressed:
  "(bars = [] \<or> width sz = Num 0 \<or> height sz = Num 0
      \<longrightarrow> bar_draw_effect drawBars bars sz svg = svg) \<and>
   (hdata = [] \<or> width sz = Num 0 \<or> height sz = Num 0
      \<longrightarrow> heatmap_draw_effect drawHeatmap hdata sz svg = svg) \<and>
   (nodeData = [] \<or> linkData = [] \<or> width sz = Num 0 \<or> height sz = Num 0
      \<longrightarrow> sankey_draw_effect drawFlow nodeData linkData sz svg = svg)"
  by (auto simp: draw_defs)

theorem draw_effects_suppressed_witness:
  "bar_draw_effect sketch [] (px 800 600) [] = [] \<and>
   heatmap_draw_effect sketch [\<lparr>hm_genre = Some ''Fiction'', hm_decade = Num 1990, hm_count = 2\<rparr>]
     (px 0 600) [] = [] \<and>
   sankey_draw_effect sketch2 [\<lparr>name = Some ''Fiction'', layer = 0\<rparr>]
     [\<lparr>source = Some ''Fiction'', target = Some ''Adult'', link_value = 1\<rparr>] (px 800 0) [] = [] \<and>
   bar_draw_effect sketch [\<lparr>category = ''Fiction'', stack = ''Adult'', bar_value = 2\<rparr>]
     (px 800 600) [] = [''title'', ''mark'']"
proof -
  have drawn: "bar_draw_effect sketch [\<lparr>category = ''Fiction'', stack = ''Adult'', bar_value = 2\<rparr>]
     (px 800 600) [] = [''title'', ''mark'']"
    by (simp add: bar_draw_effect_def sketch_def px_def)
  show ?thesis
    using draw_effects_suppressed [of "[]" "px 0 600" sketch "[]"
        "[\<lparr>hm_genre = Some ''Fiction'', hm_decade = Num 1990, hm_count = 2\<rparr>]" sketch
        "[\<lparr>name = Some ''Fiction'', layer = 0\<rparr>]"
        "[\<lparr>source = Some ''Fiction'', target = Some ''Adult'', link_value = 1\<rparr>]" sketch2]
      draw_effects_suppressed [of "[]" "px 800 600" sketch "[]"]
      draw_effects_suppressed [of _ "px 800 0" _ "[]" _ _
        "[\<lparr>name = Some ''Fiction'', layer = 0\<rparr>]"
        "[\<lparr>source = Some ''Fiction'', target = Some ''Adult'', link_value = 1\<rparr>]" sketch2]
      drawn
    by (simp add: px_def)
qed

section \<open>Bar reducer: the end-to-end example\<close>

text \<open>
  C8. The three rows (Fiction, Adult), (Fiction, Adult), (Fiction, Teen) reduce to
  exactly the two datums (Fiction, Adult, 2) and (Fiction, Teen, 1), in this order.
\<close>

theorem bar_loadData_example:
  "bar_loadData [book ''Fiction'' ''Adult'', book ''Fiction'' ''Adult'', book ''Fiction'' ''Teen'']
   = [\<lparr>category = ''Fiction'', stack = ''Adult'', bar_value = 2\<rparr>,
      \<lparr>category = ''Fiction'', stack = ''Teen'', bar_value = 1\<rparr>]"
  by (simp add: bar_loadData_def rollup2_def rollup_def group_def book_def nullish_def)

end
